theory Spec2Isabelle
  imports Main "HOL-Library.AList"
begin

section \<open>mini-webpack: the module graph and the bundle (src/mini-webpack/index.js)\<close>

subsection \<open>Data model\<close>

text \<open>
  The value \<open>createAsset\<close> returns. The field \<open>mapping\<close> is a JavaScript object used as
  a dictionary from import specifier to module id; it is kept as the list of its own
  properties in the order of their first assignment (the order in which JavaScript
  enumerates them is a function of this list).
\<close>

record asset =
  filePath :: string
  code :: string
  deps :: "string list"
  id' :: nat
  mapping :: "(string \<times> nat) list"

text \<open>The projection \<open>{ filePath, code, mapping, id }\<close> that \<open>build\<close> hands to the template.\<close>

record module_data =
  m_filePath :: string
  m_code :: string
  m_mapping :: "(string \<times> nat) list"
  m_id :: nat

text \<open>
  Every exception the program can raise: the explicit \<open>throw\<close> of \<open>build\<close> on a falsy
  entry, a failing \<open>fs.readFileSync\<close>, a failing \<open>parser.parse\<close> or
  \<open>babel.transformFromAst\<close>, a failing \<open>ejs.render\<close>, a failing \<open>fs.writeFileSync\<close>,
  and the \<open>TypeError\<close> of reading a property of \<open>undefined\<close>.
\<close>

datatype error =
  ConfigError
  | ReadError string
  | ParseError string
  | TransformError string
  | TemplateError
  | WriteError string
  | TypeError

datatype event = Read string | Write string

text \<open>
  The state the program acts on: the files (the text of each path that can be read;
  \<open>None\<close> for a path that does not exist or cannot be read), which paths can be written,
  the module-level variable \<open>id\<close> (line 9), and the trace of file-system calls made so far.
\<close>

record state =
  files :: "string \<rightharpoonup> string"
  writable :: "string \<Rightarrow> bool"
  id_counter :: nat
  trace :: "event list"

text \<open>
  The libraries the program calls, as parameters: \<open>parser.parse\<close> (with
  \<open>sourceType: "module"\<close>), the traversal that collects \<open>node.source.value\<close> of every
  \<open>ImportDeclaration\<close> in order, \<open>babel.transformFromAst\<close> with the \<open>env\<close> preset,
  \<open>path.resolve\<close> of two segments, and \<open>ejs.render\<close> of a template on the module table.
\<close>

record 'ast collaborators =
  parser_parse :: "string \<Rightarrow> 'ast option"
  import_sources :: "'ast \<Rightarrow> string list"
  transformFromAst :: "'ast \<Rightarrow> string option"
  path_resolve :: "string \<Rightarrow> string \<Rightarrow> string"
  ejs_render :: "string \<Rightarrow> module_data list \<Rightarrow> string option"

type_synonym 'a result = "(error + 'a) \<times> state"

subsection \<open>File system calls\<close>

definition readFileSync :: "string \<Rightarrow> state \<Rightarrow> string result" where
  "readFileSync p s =
     (let s1 = s\<lparr>trace := trace s @ [Read p]\<rparr> in
      case files s p of
        None \<Rightarrow> (Inl (ReadError p), s1)
      | Some text \<Rightarrow> (Inr text, s1))"

definition writeFileSync :: "string \<Rightarrow> string \<Rightarrow> state \<Rightarrow> unit result" where
  "writeFileSync p text s =
     (let s1 = s\<lparr>trace := trace s @ [Write p]\<rparr> in
      if writable s p then (Inr (), s1\<lparr>files := (files s)(p \<mapsto> text)\<rparr>)
      else (Inl (WriteError p), s1))"

subsection \<open>createAsset (lines 18 to 50)\<close>

text \<open>
  The file is read, parsed, traversed and transformed, in this order, and each of the
  calls may throw; \<open>id++\<close> is evaluated last, in the object literal, so a call that
  throws leaves the counter as it was.
\<close>

definition createAsset :: "'ast collaborators \<Rightarrow> string \<Rightarrow> state \<Rightarrow> asset result" where
  "createAsset c fp s =
     (case readFileSync fp s of
        (Inl e, s1) \<Rightarrow> (Inl e, s1)
      | (Inr source, s1) \<Rightarrow>
          (case parser_parse c source of
             None \<Rightarrow> (Inl (ParseError fp), s1)
           | Some ast \<Rightarrow>
               (let ds = import_sources c ast in
                case transformFromAst c ast of
                  None \<Rightarrow> (Inl (TransformError fp), s1)
                | Some cd \<Rightarrow>
                    (Inr \<lparr>filePath = fp, code = cd, deps = ds,
                          id' = id_counter s1, mapping = []\<rparr>,
                     s1\<lparr>id_counter := id_counter s1 + 1\<rparr>))))"

subsection \<open>createGraph (lines 56 to 76)\<close>

text \<open>
  The assignment \<open>obj[key] = value\<close> on an object created by \<open>{}\<close>, for a number
  \<open>value\<close>: the key \<open>__proto__\<close> reaches the setter inherited from \<open>Object.prototype\<close>,
  which ignores a value that is not an object, and creates no property; every other key
  is created at the end or overwritten in place.
\<close>

definition obj_set :: "string \<Rightarrow> nat \<Rightarrow> (string \<times> nat) list \<Rightarrow> (string \<times> nat) list" where
  "obj_set k v obj = (if k = ''__proto__'' then obj else AList.update k v obj)"

text \<open>
  The body of the \<open>forEach\<close> callback (lines 65 to 73) for the asset at index \<open>i\<close> of the
  queue: a falsy (empty) specifier does nothing; otherwise the child is created from
  \<open>path.resolve('./example', relativePath)\<close>, its id is stored in \<open>queue[i].mapping\<close>
  under the specifier, and the child is pushed on the queue.
\<close>

definition visit_dep :: "'ast collaborators \<Rightarrow> nat \<Rightarrow> string \<Rightarrow> asset list \<Rightarrow> state \<Rightarrow> asset list result" where
  "visit_dep c i relativePath queue s =
     (if relativePath = [] then (Inr queue, s)
      else
        (case createAsset c (path_resolve c ''./example'' relativePath) s of
           (Inl e, s1) \<Rightarrow> (Inl e, s1)
         | (Inr childAsset, s1) \<Rightarrow>
             (let parent = queue ! i;
                  parent1 = parent\<lparr>mapping := obj_set relativePath (id' childAsset) (mapping parent)\<rparr>
              in (Inr (queue[i := parent1] @ [childAsset]), s1))))"

fun forEach_deps :: "'ast collaborators \<Rightarrow> nat \<Rightarrow> string list \<Rightarrow> asset list \<Rightarrow> state \<Rightarrow> asset list result" where
  "forEach_deps c i [] queue s = (Inr queue, s)"
| "forEach_deps c i (relativePath # rest) queue s =
     (case visit_dep c i relativePath queue s of
        (Inl e, s1) \<Rightarrow> (Inl e, s1)
      | (Inr queue1, s1) \<Rightarrow> forEach_deps c i rest queue1 s1)"

text \<open>
  The loop \<open>for (let i = 0, len = queue.length; i < len; i++)\<close>: \<open>len\<close> is a variable of
  the loop, given its value once, by the initialiser; the test reads \<open>len\<close>, not
  \<open>queue.length\<close>. Reading \<open>queue[i].deps\<close> beyond the end of the array would throw.
\<close>

function graph_loop :: "'ast collaborators \<Rightarrow> nat \<Rightarrow> nat \<Rightarrow> asset list \<Rightarrow> state \<Rightarrow> asset list result" where
  "graph_loop c i len queue s =
     (if i < len then
        (if i < length queue then
           (case forEach_deps c i (deps (queue ! i)) queue s of
              (Inl e, s1) \<Rightarrow> (Inl e, s1)
            | (Inr queue1, s1) \<Rightarrow> graph_loop c (i + 1) len queue1 s1)
         else (Inl TypeError, s))
      else (Inr queue, s))"
  by pat_completeness auto
termination
  by (relation "measure (\<lambda>(c, i, len, queue, s). len - i)") auto

definition createGraph :: "'ast collaborators \<Rightarrow> string \<Rightarrow> state \<Rightarrow> asset list result" where
  "createGraph c entry s =
     (case createAsset c entry s of
        (Inl e, s1) \<Rightarrow> (Inl e, s1)
      | (Inr mainAsset, s1) \<Rightarrow>
          (let queue = [mainAsset] in graph_loop c 0 (length queue) queue s1))"

subsection \<open>build (lines 83 to 104)\<close>

record output_options =
  path :: string
  filename :: string

record options =
  entry :: "string option"
  output' :: output_options

definition project :: "asset \<Rightarrow> module_data" where
  "project a = \<lparr>m_filePath = filePath a, m_code = code a, m_mapping = mapping a, m_id = id' a\<rparr>"

text \<open>\<open>!entry\<close> holds of a missing entry and of the empty string.\<close>

definition build :: "'ast collaborators \<Rightarrow> options \<Rightarrow> state \<Rightarrow> unit result" where
  "build c opts s =
     (let templateFilePath = ''./bundle.ejs'' in
      case entry opts of
        None \<Rightarrow> (Inl ConfigError, s)
      | Some e \<Rightarrow>
          (if e = [] then (Inl ConfigError, s)
           else
             (case readFileSync templateFilePath s of
                (Inl err, s1) \<Rightarrow> (Inl err, s1)
              | (Inr template, s1) \<Rightarrow>
                  (case createGraph c e s1 of
                     (Inl err, s2) \<Rightarrow> (Inl err, s2)
                   | (Inr graph, s2) \<Rightarrow>
                       (case ejs_render c template (map project graph) of
                          None \<Rightarrow> (Inl TemplateError, s2)
                        | Some text \<Rightarrow>
                            writeFileSync (path (output' opts) @ ''/'' @ filename (output' opts)) text s2)))))"

subsection \<open>readConfigFile and init (lines 109 to 137)\<close>

text \<open>
  What a configuration module exports, as far as the program looks at it: the own
  properties \<open>entry\<close> and \<open>output\<close>, each present or not.
\<close>

record config =
  cfg_entry :: "string option"
  cfg_output :: "output_options option"

text \<open>
  The process the program runs in: the names \<open>fs.readdirSync(__dirname)\<close> lists, what
  \<open>require\<close> gives for a file of that directory (\<open>None\<close> for a falsy export), and the
  path \<open>path.resolve(__dirname, 'dist')\<close>.
\<close>

record host =
  dirname_files :: "string list"
  require_config :: "string \<Rightarrow> config option"
  dist_dir :: string

definition configFilePaths :: "string list" where
  "configFilePaths = [''webpack.config.js'', ''webpackfile.js'']"

fun readConfigFile :: "host \<Rightarrow> string list \<Rightarrow> config option" where
  "readConfigFile h [] = None"
| "readConfigFile h (f # rest) =
     (if f \<in> set configFilePaths then
        (case require_config h f of
           Some cfg \<Rightarrow> Some cfg
         | None \<Rightarrow> readConfigFile h rest)
      else readConfigFile h rest)"

text \<open>
  \<open>Object.assign(defaultOptions, readConfigFile() || {})\<close>: the default has no entry, and
  an \<open>output\<close> of the configuration replaces the default one as a whole.
\<close>

definition assign_options :: "host \<Rightarrow> config option \<Rightarrow> options" where
  "assign_options h cfg =
     (let defaultOutput = \<lparr>path = dist_dir h, filename = ''bundle.js''\<rparr> in
      case cfg of
        None \<Rightarrow> \<lparr>entry = None, output' = defaultOutput\<rparr>
      | Some g \<Rightarrow>
          \<lparr>entry = cfg_entry g,
           output' = (case cfg_output g of None \<Rightarrow> defaultOutput | Some o' \<Rightarrow> o')\<rparr>)"

text \<open>
  The state in which the module's top level leaves the program when it reaches the call
  \<open>init()\<close> on its last line: \<open>let id = 0\<close> has run, and nothing else has.
\<close>

definition loaded :: "(string \<rightharpoonup> string) \<Rightarrow> (string \<Rightarrow> bool) \<Rightarrow> state" where
  "loaded fs wr = \<lparr>files = fs, writable = wr, id_counter = 0, trace = []\<rparr>"

definition init :: "'ast collaborators \<Rightarrow> host \<Rightarrow> (string \<rightharpoonup> string) \<Rightarrow> (string \<Rightarrow> bool) \<Rightarrow> unit result" where
  "init c h fs wr =
     build c (assign_options h (readConfigFile h (dirname_files h))) (loaded fs wr)"

subsection \<open>A concrete environment for the scenarios\<close>

text \<open>
  A small module language to run the program on: a source text is a sequence of import
  specifiers, each closed by a semicolon, and then the body. The parser accepts every
  text, the transformation keeps the body, paths resolve under \<open>/srv\<close>, and the template
  is followed by one line for each module.
\<close>

fun ex_imports :: "string \<Rightarrow> string \<Rightarrow> string list" where
  "ex_imports acc [] = []"
| "ex_imports acc (x # xs) =
     (if x = CHR '';'' then rev acc # ex_imports [] xs else ex_imports (x # acc) xs)"

fun ex_body :: "string \<Rightarrow> string \<Rightarrow> string" where
  "ex_body acc [] = rev acc"
| "ex_body acc (x # xs) = (if x = CHR '';'' then ex_body [] xs else ex_body (x # acc) xs)"

definition ex_strip :: "string \<Rightarrow> string" where
  "ex_strip p = (if take 2 p = ''./'' then drop 2 p else p)"

definition ex_show :: "module_data \<Rightarrow> string" where
  "ex_show m =
     replicate (m_id m) CHR ''#'' @ '':'' @ m_filePath m @ '':'' @ m_code m @ '':''
       @ concat (map (\<lambda>(k, v). k @ ''='' @ replicate v CHR ''#'' @ '','') (m_mapping m)) @ ''|''"

definition ex_collab :: "string collaborators" where
  "ex_collab =
     \<lparr>parser_parse = Some,
      import_sources = ex_imports [],
      transformFromAst = (\<lambda>ast. Some (ex_body [] ast)),
      path_resolve = (\<lambda>base p. ''/srv/'' @ ex_strip base @ ''/'' @ ex_strip p),
      ejs_render = (\<lambda>template ms. Some (template @ concat (map ex_show ms)))\<rparr>"

definition ex_state :: "(string \<times> string) list \<Rightarrow> nat \<Rightarrow> state" where
  "ex_state fl k = \<lparr>files = map_of fl, writable = (\<lambda>p. True), id_counter = k, trace = []\<rparr>"

text \<open>The chain: \<open>a.js\<close> imports \<open>./b.js\<close>, which imports \<open>./c.js\<close>, which imports nothing.\<close>

definition chain_files :: "(string \<times> string) list" where
  "chain_files =
     [(''./bundle.ejs'', ''T''),
      (''./example/a.js'', ''./b.js;a''),
      (''/srv/example/b.js'', ''./c.js;b''),
      (''/srv/example/c.js'', ''c'')]"

text \<open>\<open>a.js\<close> imports \<open>./b.js\<close>, which imports \<open>./c.js\<close> twice.\<close>

definition twice_below_files :: "(string \<times> string) list" where
  "twice_below_files =
     [(''./bundle.ejs'', ''T''),
      (''./example/a.js'', ''./b.js;a''),
      (''/srv/example/b.js'', ''./c.js;./c.js;b''),
      (''/srv/example/c.js'', ''c'')]"

text \<open>\<open>a.js\<close> imports \<open>./b.js\<close> twice.\<close>

definition repeated_files :: "(string \<times> string) list" where
  "repeated_files =
     [(''./bundle.ejs'', ''T''),
      (''./example/a.js'', ''./b.js;./b.js;a''),
      (''/srv/example/b.js'', ''b'')]"

text \<open>\<open>a.js\<close> imports \<open>./b.js\<close> twice, with an empty specifier in between.\<close>

definition gap_files :: "(string \<times> string) list" where
  "gap_files =
     [(''./bundle.ejs'', ''T''),
      (''./example/a.js'', ''./b.js;;./b.js;a''),
      (''/srv/example/b.js'', ''b'')]"

text \<open>\<open>a.js\<close> imports \<open>./b.js\<close> and then \<open>./missing.js\<close>, which does not exist.\<close>

definition missing_files :: "(string \<times> string) list" where
  "missing_files =
     [(''./bundle.ejs'', ''T''),
      (''./example/a.js'', ''./b.js;./missing.js;a''),
      (''/srv/example/b.js'', ''b'')]"

text \<open>\<open>a.js\<close> imports \<open>./b.js\<close>, which imports \<open>./missing.js\<close>, which does not exist.\<close>

definition missing_below_files :: "(string \<times> string) list" where
  "missing_below_files =
     [(''./bundle.ejs'', ''T''),
      (''./example/a.js'', ''./b.js;a''),
      (''/srv/example/b.js'', ''./missing.js;b'')]"

text \<open>\<open>a.js\<close> imports the module named \<open>__proto__\<close>, twice.\<close>

definition proto_files :: "(string \<times> string) list" where
  "proto_files =
     [(''./bundle.ejs'', ''T''),
      (''./example/a.js'', ''__proto__;__proto__;a''),
      (''/srv/example/__proto__'', ''p'')]"

definition ex_host :: host where
  "ex_host =
     \<lparr>dirname_files = [''index.js'', ''webpack.config.js''],
      require_config = (\<lambda>f. Some \<lparr>cfg_entry = Some ''./example/a.js'', cfg_output = None\<rparr>),
      dist_dir = ''/srv/dist''\<rparr>"

definition ex_options :: options where
  "ex_options = \<lparr>entry = Some ''./example/a.js'', output' = \<lparr>path = ''/srv/dist'', filename = ''bundle.js''\<rparr>\<rparr>"

subsection \<open>Notions used in the statements\<close>

text \<open>The path \<open>build\<close> writes the bundle to.\<close>

definition output_file :: "options \<Rightarrow> string" where
  "output_file opts = path (output' opts) @ ''/'' @ filename (output' opts)"

text \<open>The paths of the write calls in a trace, in order.\<close>

fun writes :: "event list \<Rightarrow> string list" where
  "writes [] = []"
| "writes (Read p # evs) = writes evs"
| "writes (Write p # evs) = p # writes evs"

text \<open>A path from which \<open>createAsset\<close> returns an asset: the file exists, parses and transforms.\<close>

definition extractable :: "'ast collaborators \<Rightarrow> (string \<rightharpoonup> string) \<Rightarrow> string \<Rightarrow> bool" where
  "extractable c fs p =
     (case fs p of
        None \<Rightarrow> False
      | Some src \<Rightarrow>
          (case parser_parse c src of
             None \<Rightarrow> False
           | Some ast \<Rightarrow> transformFromAst c ast \<noteq> None))"

text \<open>The same state with one file replaced.\<close>

definition put_file :: "string \<Rightarrow> string \<Rightarrow> state \<Rightarrow> state" where
  "put_file p x s = s\<lparr>files := (files s)(p \<mapsto> x)\<rparr>"

section \<open>Properties of the operations\<close>

subsection \<open>What a call of createAsset and of the loop body returns\<close>

lemma createAsset_Inr:
  assumes "createAsset c fp s = (Inr a, s1)"
  shows "\<exists>src ast cd. files s fp = Some src \<and> parser_parse c src = Some ast
           \<and> transformFromAst c ast = Some cd
           \<and> a = \<lparr>filePath = fp, code = cd, deps = import_sources c ast,
                   id' = id_counter s, mapping = []\<rparr>"
    and "s1 = s\<lparr>trace := trace s @ [Read fp], id_counter := id_counter s + 1\<rparr>"
  using assms
  by (auto simp: createAsset_def readFileSync_def Let_def split: option.splits)

lemma createAsset_Inl:
  assumes "createAsset c fp s = (Inl e, s1)"
  shows "s1 = s\<lparr>trace := trace s @ [Read fp]\<rparr>"
    and "e = ReadError fp \<or> e = ParseError fp \<or> e = TransformError fp"
    and "e = ReadError fp \<longleftrightarrow> files s fp = None"
  using assms
  by (auto simp: createAsset_def readFileSync_def Let_def split: option.splits)

lemma createAsset_missing:
  "files s fp = None \<Longrightarrow> createAsset c fp s = (Inl (ReadError fp), s\<lparr>trace := trace s @ [Read fp]\<rparr>)"
  by (simp add: createAsset_def readFileSync_def Let_def)

lemma visit_dep_empty: "visit_dep c i [] q s = (Inr q, s)"
  by (simp add: visit_dep_def)

lemma visit_dep_Inr:
  assumes "visit_dep c i d q s = (Inr q1, s1)" "d \<noteq> []"
  shows "\<exists>a. createAsset c (path_resolve c ''./example'' d) s = (Inr a, s1)
           \<and> q1 = q[i := (q ! i)\<lparr>mapping := obj_set d (id' a) (mapping (q ! i))\<rparr>] @ [a]"
  using assms
  by (auto simp: visit_dep_def Let_def split: prod.splits sum.splits)

lemma visit_dep_Inl:
  assumes "visit_dep c i d q s = (Inl e, s1)"
  shows "d \<noteq> [] \<and> createAsset c (path_resolve c ''./example'' d) s = (Inl e, s1)"
  using assms
  by (auto simp: visit_dep_def Let_def split: prod.splits sum.splits if_splits)

text \<open>
  With the bound fixed at 1 the loop is one pass of the \<open>forEach\<close> over the specifiers of
  the entry asset: the assets pushed during that pass are never visited.
\<close>

lemma graph_loop_once:
  "graph_loop c 0 (Suc 0) [a] s = 
     (case forEach_deps c 0 (deps a) [a] s of (Inl e, s1) \<Rightarrow> (Inl e, s1) | (Inr q1, s1) \<Rightarrow> (Inr q1, s1))"
  by (auto split: prod.splits sum.splits)

lemma createGraph_unfold:
  "createGraph c e s =
     (case createAsset c e s of
        (Inl err, s1) \<Rightarrow> (Inl err, s1)
      | (Inr a, s1) \<Rightarrow> forEach_deps c 0 (deps a) [a] s1)"
  by (auto simp: createGraph_def Let_def split: prod.splits sum.splits)

subsection \<open>The queue after a successful pass\<close>

text \<open>
  The pass over the specifiers \<open>ds\<close> of the asset at index \<open>i\<close> appends one child for each
  non-empty specifier, in order, with the next ids, and changes nothing in the queue but
  the mapping of that asset.
\<close>

lemma forEach_deps_Inr:
  assumes "forEach_deps c i ds q s = (Inr q1, s1)" "i < length q"
  shows "\<exists>children.
           q1 = q[i := (q ! i)\<lparr>mapping :=
                   foldl (\<lambda>m (d, n). obj_set d n m) (mapping (q ! i))
                     (zip (filter (\<lambda>d. d \<noteq> []) ds) [id_counter s ..< id_counter s1])\<rparr>] @ children
         \<and> map filePath children = map (path_resolve c ''./example'') (filter (\<lambda>d. d \<noteq> []) ds)
         \<and> map id' children = [id_counter s ..< id_counter s1]
         \<and> (\<forall>a \<in> set children. mapping a = [])
         \<and> id_counter s1 = id_counter s + length (filter (\<lambda>d. d \<noteq> []) ds)
         \<and> files s1 = files s \<and> writable s1 = writable s
         \<and> trace s1 = trace s @ map (\<lambda>d. Read (path_resolve c ''./example'' d)) (filter (\<lambda>d. d \<noteq> []) ds)"
  using assms
proof (induction ds arbitrary: q s)
  case Nil
  then show ?case by simp
next
  case (Cons d ds)
  show ?case
  proof (cases "d = []")
    case True
    with Cons.prems have "forEach_deps c i ds q s = (Inr q1, s1)"
      by (simp add: visit_dep_empty)
    from Cons.IH[OF this Cons.prems(2)] True show ?thesis by simp
  next
    case False
    from Cons.prems(1) obtain q' s' where v: "visit_dep c i d q s = (Inr q', s')"
      and r: "forEach_deps c i ds q' s' = (Inr q1, s1)"
      by (auto split: prod.splits sum.splits)
    from visit_dep_Inr[OF v False] obtain a where
      a: "createAsset c (path_resolve c ''./example'' d) s = (Inr a, s')"
      and q': "q' = q[i := (q ! i)\<lparr>mapping := obj_set d (id' a) (mapping (q ! i))\<rparr>] @ [a]"
      by blast
    from createAsset_Inr[OF a] have
      s': "s' = s\<lparr>trace := trace s @ [Read (path_resolve c ''./example'' d)], id_counter := id_counter s + 1\<rparr>"
      and ida: "id' a = id_counter s" and fpa: "filePath a = path_resolve c ''./example'' d"
      and ma: "mapping a = []"
      by auto
    have len: "i < length q'" using Cons.prems(2) q' by simp
    from Cons.IH[OF r len] obtain ch where
      q1: "q1 = q'[i := (q' ! i)\<lparr>mapping :=
                   foldl (\<lambda>m (d, n). obj_set d n m) (mapping (q' ! i))
                     (zip (filter (\<lambda>d. d \<noteq> []) ds) [id_counter s' ..< id_counter s1])\<rparr>] @ ch"
      and fp: "map filePath ch = map (path_resolve c ''./example'') (filter (\<lambda>d. d \<noteq> []) ds)"
      and ids: "map id' ch = [id_counter s' ..< id_counter s1]"
      and mp: "\<forall>a \<in> set ch. mapping a = []"
      and cnt: "id_counter s1 = id_counter s' + length (filter (\<lambda>d. d \<noteq> []) ds)"
      and fr: "files s1 = files s'" "writable s1 = writable s'"
      and tr: "trace s1 = trace s' @ map (\<lambda>d. Read (path_resolve c ''./example'' d)) (filter (\<lambda>d. d \<noteq> []) ds)"
      by blast
    have cs: "id_counter s' = Suc (id_counter s)" using s' by simp
    have lt: "id_counter s < id_counter s1" using cnt cs by simp
    have upt: "[id_counter s ..< id_counter s1] = id_counter s # [id_counter s' ..< id_counter s1]"
      using lt cs by (simp add: upt_conv_Cons)
    have nth: "q' ! i = (q ! i)\<lparr>mapping := obj_set d (id' a) (mapping (q ! i))\<rparr>"
      using Cons.prems(2) q' by (simp add: nth_append)
    have "q1 = q[i := (q ! i)\<lparr>mapping :=
                   foldl (\<lambda>m (d, n). obj_set d n m) (mapping (q ! i))
                     (zip (filter (\<lambda>d. d \<noteq> []) (d # ds)) [id_counter s ..< id_counter s1])\<rparr>] @ (a # ch)"
      using q1 nth q' Cons.prems(2) False upt ida
      by (simp add: list_update_append1)
    moreover have "map filePath (a # ch) = map (path_resolve c ''./example'') (filter (\<lambda>d. d \<noteq> []) (d # ds))"
      using fp fpa False by simp
    moreover have "map id' (a # ch) = [id_counter s ..< id_counter s1]"
      using ids ida upt by simp
    moreover have "\<forall>a \<in> set (a # ch). mapping a = []" using mp ma by simp
    moreover have "id_counter s1 = id_counter s + length (filter (\<lambda>d. d \<noteq> []) (d # ds))"
      using cnt cs False by simp
    moreover have "files s1 = files s" "writable s1 = writable s" using fr s' by simp_all
    moreover have "trace s1 = trace s @ map (\<lambda>d. Read (path_resolve c ''./example'' d)) (filter (\<lambda>d. d \<noteq> []) (d # ds))"
      using tr s' False by simp
    ultimately show ?thesis by blast
  qed
qed

lemma createGraph_Inr:
  assumes "createGraph c e s = (Inr g, s1)"
  shows "\<exists>src ast cd children.
           files s e = Some src \<and> parser_parse c src = Some ast \<and> transformFromAst c ast = Some cd
         \<and> g = \<lparr>filePath = e, code = cd, deps = import_sources c ast, id' = id_counter s,
                 mapping = foldl (\<lambda>m (d, n). obj_set d n m) []
                     (zip (filter (\<lambda>d. d \<noteq> []) (import_sources c ast)) [Suc (id_counter s) ..< id_counter s1])\<rparr>
               # children
         \<and> map filePath children = map (path_resolve c ''./example'') (filter (\<lambda>d. d \<noteq> []) (import_sources c ast))
         \<and> map id' children = [Suc (id_counter s) ..< id_counter s1]
         \<and> (\<forall>a \<in> set children. mapping a = [])
         \<and> id_counter s1 = Suc (id_counter s) + length (filter (\<lambda>d. d \<noteq> []) (import_sources c ast))
         \<and> files s1 = files s \<and> writable s1 = writable s
         \<and> trace s1 = trace s @ Read e # map (\<lambda>d. Read (path_resolve c ''./example'' d)) (filter (\<lambda>d. d \<noteq> []) (import_sources c ast))"
proof -
  from assms obtain a s' where a: "createAsset c e s = (Inr a, s')"
    and f: "forEach_deps c 0 (deps a) [a] s' = (Inr g, s1)"
    by (auto simp: createGraph_unfold split: prod.splits sum.splits)
  from createAsset_Inr[OF a] obtain src ast cd where
    src: "files s e = Some src" "parser_parse c src = Some ast" "transformFromAst c ast = Some cd"
    and adef: "a = \<lparr>filePath = e, code = cd, deps = import_sources c ast, id' = id_counter s, mapping = []\<rparr>"
    and s': "s' = s\<lparr>trace := trace s @ [Read e], id_counter := id_counter s + 1\<rparr>"
    by blast
  have "0 < length [a]" by simp
  from forEach_deps_Inr[OF f this] obtain ch where
    g: "g = [a][0 := ([a] ! 0)\<lparr>mapping :=
                   foldl (\<lambda>m (d, n). obj_set d n m) (mapping ([a] ! 0))
                     (zip (filter (\<lambda>d. d \<noteq> []) (deps a)) [id_counter s' ..< id_counter s1])\<rparr>] @ ch"
    and rest: "map filePath ch = map (path_resolve c ''./example'') (filter (\<lambda>d. d \<noteq> []) (deps a))"
      "map id' ch = [id_counter s' ..< id_counter s1]"
      "\<forall>a \<in> set ch. mapping a = []"
      "id_counter s1 = id_counter s' + length (filter (\<lambda>d. d \<noteq> []) (deps a))"
      "files s1 = files s'" "writable s1 = writable s'"
      "trace s1 = trace s' @ map (\<lambda>d. Read (path_resolve c ''./example'' d)) (filter (\<lambda>d. d \<noteq> []) (deps a))"
    by blast
  show ?thesis
    using src g rest unfolding adef s' by simp
qed


subsection \<open>What the traversal leaves as it was, and how it fails\<close>

lemma writes_append: "writes (xs @ ys) = writes xs @ writes ys"
  by (induction xs rule: writes.induct) auto


lemma createAsset_frame:
  "files (snd (createAsset c p s)) = files s"
  "writable (snd (createAsset c p s)) = writable s"
  "trace (snd (createAsset c p s)) = trace s @ [Read p]"
  by (auto simp: createAsset_def readFileSync_def Let_def split: option.splits)

lemma createAsset_error_files:
  "files t = files s \<Longrightarrow> fst (createAsset c p t) = Inl err \<Longrightarrow> fst (createAsset c p s) = Inl err"
  by (auto simp: createAsset_def readFileSync_def Let_def split: option.splits)

lemma createAsset_extractable:
  "extractable c (files s) p \<Longrightarrow> \<exists>a. createAsset c p s = (Inr a, s\<lparr>trace := trace s @ [Read p], id_counter := id_counter s + 1\<rparr>)"
  by (auto simp: extractable_def createAsset_def readFileSync_def Let_def split: option.splits)

lemma visit_dep_frame:
  "files (snd (visit_dep c i d q s)) = files s"
  "writable (snd (visit_dep c i d q s)) = writable s"
  "writes (trace (snd (visit_dep c i d q s))) = writes (trace s)"
proof -
  have *: "snd (visit_dep c i d q s) = (if d = [] then s else snd (createAsset c (path_resolve c ''./example'' d) s))"
    by (auto simp: visit_dep_def Let_def split: prod.splits sum.splits)
  show "files (snd (visit_dep c i d q s)) = files s"
    "writable (snd (visit_dep c i d q s)) = writable s"
    "writes (trace (snd (visit_dep c i d q s))) = writes (trace s)"
    by (simp_all add: * createAsset_frame writes_append)
qed

lemma forEach_deps_frame:
  "files (snd (forEach_deps c i ds q s)) = files s
   \<and> writable (snd (forEach_deps c i ds q s)) = writable s
   \<and> writes (trace (snd (forEach_deps c i ds q s))) = writes (trace s)"
proof (induction ds arbitrary: q s)
  case Nil
  show ?case by simp
next
  case (Cons d ds)
  obtain r s' where v: "visit_dep c i d q s = (r, s')" by (cases "visit_dep c i d q s")
  have fr: "files s' = files s" "writable s' = writable s" "writes (trace s') = writes (trace s)"
    using visit_dep_frame[of c i d q s] v by simp_all
  show ?case
  proof (cases r)
    case (Inl e)
    then show ?thesis using v fr by simp
  next
    case (Inr q')
    then show ?thesis using v fr Cons.IH[of q' s'] by simp
  qed
qed

lemma forEach_deps_Inl:
  assumes "fst (forEach_deps c i ds q s) = Inl err"
  shows "\<exists>x \<in> set ds. x \<noteq> [] \<and> fst (createAsset c (path_resolve c ''./example'' x) s) = Inl err"
  using assms
proof (induction ds arbitrary: q s)
  case Nil
  then show ?case by simp
next
  case (Cons d ds)
  obtain r s' where v: "visit_dep c i d q s = (r, s')" by (cases "visit_dep c i d q s")
  show ?case
  proof (cases r)
    case (Inl e)
    with v Cons.prems have "e = err" by simp
    with visit_dep_Inl[of c i d q s err s'] v Inl show ?thesis by simp
  next
    case (Inr q')
    with v Cons.prems have "fst (forEach_deps c i ds q' s') = Inl err" by simp
    from Cons.IH[OF this] obtain x where x: "x \<in> set ds" "x \<noteq> []"
      "fst (createAsset c (path_resolve c ''./example'' x) s') = Inl err" by blast
    have "files s' = files s" using visit_dep_frame(1)[of c i d q s] v by simp
    from createAsset_error_files[OF this x(3)] x(1,2) show ?thesis by auto
  qed
qed

lemma forEach_deps_missing:
  assumes "d \<in> set ds" "d \<noteq> []" "files s (path_resolve c ''./example'' d) = None"
  shows "\<exists>err. fst (forEach_deps c i ds q s) = Inl err"
  using assms
proof (induction ds arbitrary: q s)
  case Nil
  then show ?case by simp
next
  case (Cons x ds)
  obtain r s' where v: "visit_dep c i x q s = (r, s')" by (cases "visit_dep c i x q s")
  show ?case
  proof (cases r)
    case (Inl e)
    then show ?thesis using v by simp
  next
    case (Inr q')
    have fs: "files s' = files s" using visit_dep_frame(1)[of c i x q s] v by simp
    have "x \<noteq> d"
    proof
      assume "x = d"
      then have "visit_dep c i x q s = (Inl (ReadError (path_resolve c ''./example'' d)),
                    s\<lparr>trace := trace s @ [Read (path_resolve c ''./example'' d)]\<rparr>)"
        using Cons.prems(2,3) by (simp add: visit_dep_def createAsset_missing)
      with v Inr show False by simp
    qed
    with Cons.prems have "d \<in> set ds" by simp
    from Cons.IH[OF this Cons.prems(2), of s' q'] fs Cons.prems(3) v Inr show ?thesis by simp
  qed
qed

lemma forEach_deps_first_missing:
  assumes "d \<in> set ds" "d \<noteq> []" "files s (path_resolve c ''./example'' d) = None"
    and "\<forall>y \<in> set (takeWhile (\<lambda>y. y \<noteq> d) ds). y = [] \<or> extractable c (files s) (path_resolve c ''./example'' y)"
  shows "fst (forEach_deps c i ds q s) = Inl (ReadError (path_resolve c ''./example'' d))"
  using assms
proof (induction ds arbitrary: q s)
  case Nil
  then show ?case by simp
next
  case (Cons x ds)
  show ?case
  proof (cases "x = d")
    case True
    then have "visit_dep c i x q s = (Inl (ReadError (path_resolve c ''./example'' d)),
                    s\<lparr>trace := trace s @ [Read (path_resolve c ''./example'' d)]\<rparr>)"
      using Cons.prems(2,3) by (simp add: visit_dep_def createAsset_missing)
    then show ?thesis by simp
  next
    case False
    with Cons.prems(4) have ok: "x = [] \<or> extractable c (files s) (path_resolve c ''./example'' x)"
      by simp
    have "\<exists>q' s'. visit_dep c i x q s = (Inr q', s')"
    proof (cases "x = []")
      case True
      then show ?thesis by (simp add: visit_dep_def)
    next
      case nonempty: False
      with ok obtain a where "createAsset c (path_resolve c ''./example'' x) s =
          (Inr a, s\<lparr>trace := trace s @ [Read (path_resolve c ''./example'' x)], id_counter := id_counter s + 1\<rparr>)"
        using createAsset_extractable by blast
      then show ?thesis using nonempty by (simp add: visit_dep_def Let_def)
    qed
    then obtain q' s' where v: "visit_dep c i x q s = (Inr q', s')" by blast
    have fs: "files s' = files s" using visit_dep_frame(1)[of c i x q s] v by simp
    from Cons.prems(1) False have "d \<in> set ds" by simp
    moreover have "\<forall>y \<in> set (takeWhile (\<lambda>y. y \<noteq> d) ds). y = [] \<or> extractable c (files s') (path_resolve c ''./example'' y)"
      using Cons.prems(4) False fs by simp
    ultimately have "fst (forEach_deps c i ds q' s') = Inl (ReadError (path_resolve c ''./example'' d))"
      using Cons.IH[of s' q'] Cons.prems(2,3) fs by simp
    then show ?thesis using v by simp
  qed
qed

lemma createGraph_frame:
  "files (snd (createGraph c e s)) = files s
   \<and> writable (snd (createGraph c e s)) = writable s
   \<and> writes (trace (snd (createGraph c e s))) = writes (trace s)"
proof -
  obtain r s' where a: "createAsset c e s = (r, s')" by (cases "createAsset c e s")
  have fr: "files s' = files s" "writable s' = writable s" "trace s' = trace s @ [Read e]"
    using createAsset_frame[of c e s] a by simp_all
  show ?thesis
  proof (cases r)
    case (Inl err)
    then show ?thesis using a fr by (simp add: createGraph_unfold writes_append)
  next
    case (Inr m)
    then show ?thesis
      using a fr forEach_deps_frame[of c 0 "deps m" "[m]" s']
      by (simp add: createGraph_unfold writes_append)
  qed
qed


subsection \<open>A file that is not read does not matter\<close>

lemma createAsset_put_file:
  "p \<noteq> out \<Longrightarrow> createAsset c p (put_file out x s) = apsnd (put_file out x) (createAsset c p s)"
  by (auto simp: createAsset_def readFileSync_def put_file_def Let_def split: option.splits)

lemma visit_dep_put_file:
  "d \<noteq> [] \<longrightarrow> path_resolve c ''./example'' d \<noteq> out \<Longrightarrow>
   visit_dep c i d q (put_file out x s) = apsnd (put_file out x) (visit_dep c i d q s)"
  by (auto simp: visit_dep_def createAsset_put_file Let_def split: prod.splits sum.splits)

lemma forEach_deps_put_file:
  "\<forall>d \<in> set ds. d \<noteq> [] \<longrightarrow> path_resolve c ''./example'' d \<noteq> out \<Longrightarrow>
   forEach_deps c i ds q (put_file out x s) = apsnd (put_file out x) (forEach_deps c i ds q s)"
proof (induction ds arbitrary: q s)
  case Nil
  show ?case by simp
next
  case (Cons d ds)
  have v: "visit_dep c i d q (put_file out x s) = apsnd (put_file out x) (visit_dep c i d q s)"
    using Cons.prems by (intro visit_dep_put_file) simp
  obtain r s' where w: "visit_dep c i d q s = (r, s')" by (cases "visit_dep c i d q s")
  show ?case
  proof (cases r)
    case (Inl e)
    then show ?thesis using v w by simp
  next
    case (Inr q')
    have "forEach_deps c i ds q' (put_file out x s') = apsnd (put_file out x) (forEach_deps c i ds q' s')"
      using Cons.prems by (intro Cons.IH) simp
    then show ?thesis using v w Inr by simp
  qed
qed

lemma createGraph_put_file:
  assumes "createGraph c e s = (Inr g, s1)" "e \<noteq> out"
    and "\<forall>d \<in> set (deps (hd g)). d \<noteq> [] \<longrightarrow> path_resolve c ''./example'' d \<noteq> out"
  shows "createGraph c e (put_file out x s) = (Inr g, put_file out x s1)"
proof -
  from assms(1) obtain a s' where a: "createAsset c e s = (Inr a, s')"
    and f: "forEach_deps c 0 (deps a) [a] s' = (Inr g, s1)"
    by (auto simp: createGraph_unfold split: prod.splits sum.splits)
  have "deps (hd g) = deps a"
    using createGraph_Inr[OF assms(1)] createAsset_Inr(1)[OF a] by auto
  with assms(3) have "forEach_deps c 0 (deps a) [a] (put_file out x s')
       = apsnd (put_file out x) (forEach_deps c 0 (deps a) [a] s')"
    by (intro forEach_deps_put_file) simp
  then show ?thesis
    using a f assms(2) by (simp add: createGraph_unfold createAsset_put_file)
qed

lemma build_Inr:
  assumes "fst (build c opts s) = Inr ()"
  shows "\<exists>e template g s2 text.
           entry opts = Some e \<and> e \<noteq> [] \<and> files s ''./bundle.ejs'' = Some template
         \<and> createGraph c e (s\<lparr>trace := trace s @ [Read ''./bundle.ejs'']\<rparr>) = (Inr g, s2)
         \<and> ejs_render c template (map project g) = Some text
         \<and> writable s2 (output_file opts)
         \<and> snd (build c opts s) =
             s2\<lparr>trace := trace s2 @ [Write (output_file opts)],
                files := (files s2)(output_file opts \<mapsto> text)\<rparr>"
  using assms
  by (auto simp: build_def readFileSync_def writeFileSync_def output_file_def Let_def
           split: option.splits if_splits prod.splits sum.splits)


subsection \<open>The mapping of the entry asset and the ids from any start of the counter\<close>

text \<open>
  A specifier other than \<open>__proto__\<close> is mapped to the id given to its last occurrence;
  the ids of a graph start at the value the counter had, whatever it was.
\<close>

lemma obj_set_lookup:
  "d \<noteq> ''__proto__'' \<Longrightarrow> map_of (obj_set k n m) d = (if k = d then Some n else map_of m d)"
  by (simp add: obj_set_def update_conv')

lemma foldl_obj_set_lookup:
  "d \<noteq> ''__proto__'' \<Longrightarrow>
   map_of (foldl (\<lambda>m (k, n). obj_set k n m) m0 kvs) d =
     (case map_of (rev kvs) d of None \<Rightarrow> map_of m0 d | Some v \<Rightarrow> Some v)"
proof (induction kvs arbitrary: m0)
  case Nil
  show ?case by simp
next
  case (Cons kv kvs)
  obtain k n where kv: "kv = (k, n)" by (cases kv)
  show ?case
    using Cons.IH[OF Cons.prems, of "obj_set k n m0"] Cons.prems
    by (auto simp: kv obj_set_lookup map_add_def split: option.splits)
qed

lemma map_of_rev_zip_last:
  "length ys = length xs \<Longrightarrow> j < length xs \<Longrightarrow> xs ! j = d \<Longrightarrow>
   \<forall>j'. j < j' \<and> j' < length xs \<longrightarrow> xs ! j' \<noteq> d \<Longrightarrow>
   map_of (rev (zip xs ys)) d = Some (ys ! j)"
proof (induction xs arbitrary: ys rule: rev_induct)
  case Nil
  then show ?case by simp
next
  case (snoc x xs)
  from snoc.prems(1) obtain ys' y where ys: "ys = ys' @ [y]" and len: "length ys' = length xs"
    by (cases ys rule: rev_cases) auto
  have z: "rev (zip (xs @ [x]) ys) = (x, y) # rev (zip xs ys')"
    using len by (simp add: ys)
  show ?case
  proof (cases "x = d")
    case True
    have "j = length xs"
    proof (rule ccontr)
      assume "j \<noteq> length xs"
      with snoc.prems(2) have "j < length xs" by simp
      then have "j < length xs \<and> length xs < length (xs @ [x])" by simp
      with snoc.prems(4) have "(xs @ [x]) ! length xs \<noteq> d" by blast
      with True show False by simp
    qed
    then show ?thesis using True z len by (simp add: ys nth_append)
  next
    case False
    with snoc.prems(2,3) have j: "j < length xs" by (cases "j = length xs") auto
    have "xs ! j = d" using snoc.prems(3) j by (simp add: nth_append)
    moreover have "\<forall>j'. j < j' \<and> j' < length xs \<longrightarrow> xs ! j' \<noteq> d"
    proof (intro allI impI)
      fix j' assume a: "j < j' \<and> j' < length xs"
      then have "(xs @ [x]) ! j' \<noteq> d" using snoc.prems(4) by simp
      then show "xs ! j' \<noteq> d" using a by (simp add: nth_append)
    qed
    ultimately have "map_of (rev (zip xs ys')) d = Some (ys' ! j)"
      using snoc.IH[OF len j] by simp
    then show ?thesis using False z j len by (simp add: ys nth_append)
  qed
qed

lemma createGraph_ids:
  assumes "fst (createGraph c e s) = Inr g"
  shows "map id' g = [id_counter s ..< id_counter s + length g]"
    and "id_counter (snd (createGraph c e s)) = id_counter s + length g"
proof -
  define s1 where "s1 = snd (createGraph c e s)"
  have "createGraph c e s = (Inr g, s1)" using assms s1_def by (metis prod.collapse)
  from createGraph_Inr[OF this] obtain r ch where g: "g = r # ch" and r: "id' r = id_counter s"
    and ch: "map id' ch = [Suc (id_counter s) ..< id_counter s1]"
    and n: "id_counter s1 = Suc (id_counter s) + length ch"
    by (metis (no_types, lifting) asset.select_convs(4) length_map)
  have "[id_counter s ..< id_counter s + Suc (length ch)]
          = id_counter s # [Suc (id_counter s) ..< id_counter s + Suc (length ch)]"
    by (rule upt_conv_Cons) simp
  then show "map id' g = [id_counter s ..< id_counter s + length g]"
    using g r ch n by simp
  show "id_counter (snd (createGraph c e s)) = id_counter s + length g"
    using g n s1_def by simp
qed

lemma entry_mapping_last_occurrence:
  assumes "fst (createGraph c e s) = Inr g"
    and "j < length (filter (\<lambda>d. d \<noteq> []) (deps (hd g)))"
    and "filter (\<lambda>d. d \<noteq> []) (deps (hd g)) ! j = d"
    and "\<forall>j'. j < j' \<and> j' < length (filter (\<lambda>d. d \<noteq> []) (deps (hd g)))
            \<longrightarrow> filter (\<lambda>d. d \<noteq> []) (deps (hd g)) ! j' \<noteq> d"
    and "d \<noteq> ''__proto__''"
  shows "map_of (mapping (hd g)) d = Some (id_counter s + 1 + j)"
    and "id' (g ! (1 + j)) = id_counter s + 1 + j"
    and "filePath (g ! (1 + j)) = path_resolve c ''./example'' d"
proof -
  define s1 where "s1 = snd (createGraph c e s)"
  define ne where "ne = filter (\<lambda>d. d \<noteq> []) (deps (hd g))"
  have "createGraph c e s = (Inr g, s1)" using assms(1) s1_def by (metis prod.collapse)
  from createGraph_Inr[OF this] obtain src ast cd ch where
    g0: "g = \<lparr>filePath = e, code = cd, deps = import_sources c ast, id' = id_counter s,
                 mapping = foldl (\<lambda>m (d, n). obj_set d n m) []
                     (zip (filter (\<lambda>d. d \<noteq> []) (import_sources c ast)) [Suc (id_counter s) ..< id_counter s1])\<rparr>
               # ch"
    and fp0: "map filePath ch = map (path_resolve c ''./example'') (filter (\<lambda>d. d \<noteq> []) (import_sources c ast))"
    and ids: "map id' ch = [Suc (id_counter s) ..< id_counter s1]"
    and n0: "id_counter s1 = Suc (id_counter s) + length (filter (\<lambda>d. d \<noteq> []) (import_sources c ast))"
    by blast
  define r where "r = hd g"
  have ne: "ne = filter (\<lambda>d. d \<noteq> []) (import_sources c ast)"
    unfolding ne_def g0 by simp
  have g: "g = r # ch" unfolding r_def g0 by simp
  have m: "mapping r = foldl (\<lambda>m (d, n). obj_set d n m) [] (zip ne [Suc (id_counter s) ..< id_counter s1])"
    unfolding r_def ne g0 by simp
  have fp: "map filePath ch = map (path_resolve c ''./example'') ne" using fp0 ne by simp
  have n: "id_counter s1 = Suc (id_counter s) + length ne" using n0 ne by simp
  have j: "j < length ne" "ne ! j = d" "\<forall>j'. j < j' \<and> j' < length ne \<longrightarrow> ne ! j' \<noteq> d"
    using assms(2-4) unfolding ne_def by auto
  have len: "length [Suc (id_counter s) ..< id_counter s1] = length ne"
    unfolding n length_upt by arith
  have "map_of (rev (zip ne [Suc (id_counter s) ..< id_counter s1])) d
          = Some ([Suc (id_counter s) ..< id_counter s1] ! j)"
    by (rule map_of_rev_zip_last[OF len j])
  also have "[Suc (id_counter s) ..< id_counter s1] ! j = id_counter s + 1 + j"
    using j(1) n by (subst nth_upt) arith+
  finally show "map_of (mapping (hd g)) d = Some (id_counter s + 1 + j)"
    using g m foldl_obj_set_lookup[OF assms(5)] by simp
  have lch: "length ch = length ne" using fp by (metis length_map)
  have "id' (ch ! j) = map id' ch ! j" using j(1) lch by simp
  also have "\<dots> = id_counter s + 1 + j"
    unfolding ids using j(1) n by (subst nth_upt) arith+
  finally show "id' (g ! (1 + j)) = id_counter s + 1 + j" using g by simp
  have "filePath (ch ! j) = map filePath ch ! j" using j(1) lch by simp
  also have "\<dots> = path_resolve c ''./example'' d" using fp j(1,2) by simp
  finally show "filePath (g ! (1 + j)) = path_resolve c ''./example'' d" using g by simp
qed

subsection \<open>The build that init starts\<close>

text \<open>
  \<open>init\<close> calls \<open>build\<close> in the state of a freshly loaded module, so \<open>createGraph\<close>
  starts with the counter at 0, and the text written is the rendering of that graph.
\<close>

lemma init_Inr:
  assumes "fst (init c h fs wr) = Inr ()"
  shows "\<exists>e template g s0 s2 btext.
           entry (assign_options h (readConfigFile h (dirname_files h))) = Some e
         \<and> fs ''./bundle.ejs'' = Some template
         \<and> createGraph c e s0 = (Inr g, s2) \<and> id_counter s0 = 0 \<and> files s0 = fs
         \<and> ejs_render c template (map project g) = Some btext
         \<and> files (snd (init c h fs wr))
             = fs(output_file (assign_options h (readConfigFile h (dirname_files h))) \<mapsto> btext)"
proof -
  define opts where "opts = assign_options h (readConfigFile h (dirname_files h))"
  have i: "init c h fs wr = build c opts (loaded fs wr)" by (simp add: init_def opts_def)
  from build_Inr[of c opts "loaded fs wr"] assms i obtain e template g s2 btext where
    *: "entry opts = Some e" "files (loaded fs wr) ''./bundle.ejs'' = Some template"
       "createGraph c e ((loaded fs wr)\<lparr>trace := trace (loaded fs wr) @ [Read ''./bundle.ejs'']\<rparr>) = (Inr g, s2)"
       "ejs_render c template (map project g) = Some btext"
       "snd (build c opts (loaded fs wr)) =
             s2\<lparr>trace := trace s2 @ [Write (output_file opts)],
                files := (files s2)(output_file opts \<mapsto> btext)\<rparr>"
    by auto
  have "files s2 = fs" using createGraph_frame[of c e "(loaded fs wr)\<lparr>trace := trace (loaded fs wr) @ [Read ''./bundle.ejs'']\<rparr>"] *(3)
    by (simp add: loaded_def)
  then show ?thesis
    using * i unfolding opts_def[symmetric]
    by (intro exI[of _ e] exI[of _ template] exI[of _ g]
          exI[of _ "(loaded fs wr)\<lparr>trace := trace (loaded fs wr) @ [Read ''./bundle.ejs'']\<rparr>"]
          exI[of _ s2] exI[of _ btext]) (simp add: loaded_def)
qed

subsection \<open>A read of a missing file ends the build\<close>

text \<open>
  Whatever file the build tries to read and cannot, the build returns the read error of
  that file, and a build that fails, for whatever reason, leaves the files as they were.
\<close>

lemma createAsset_attempt:
  "trace (snd (createAsset c fp s)) = trace s @ [Read fp]
   \<and> (files s fp = None \<longrightarrow> fst (createAsset c fp s) = Inl (ReadError fp))"
  by (auto simp: createAsset_def readFileSync_def Let_def split: option.splits)

lemma visit_dep_attempt:
  "\<exists>evs. trace (snd (visit_dep c i d q s)) = trace s @ evs
     \<and> (\<forall>p. Read p \<in> set evs \<longrightarrow> files s p = None \<longrightarrow> fst (visit_dep c i d q s) = Inl (ReadError p))"
proof (cases "d = []")
  case True
  then show ?thesis by (simp add: visit_dep_def)
next
  case False
  let ?p = "path_resolve c ''./example'' d"
  have s: "snd (visit_dep c i d q s) = snd (createAsset c ?p s)"
    using False by (auto simp: visit_dep_def Let_def split: prod.splits sum.splits)
  have f: "files s ?p = None \<longrightarrow> fst (visit_dep c i d q s) = Inl (ReadError ?p)"
    using False by (simp add: visit_dep_def createAsset_missing)
  have "trace (snd (visit_dep c i d q s)) = trace s @ [Read ?p]"
    using s createAsset_attempt[of c ?p s] by simp
  with f show ?thesis by (intro exI[of _ "[Read ?p]"]) simp
qed

lemma forEach_deps_attempt:
  "\<exists>evs. trace (snd (forEach_deps c i ds q s)) = trace s @ evs
     \<and> (\<forall>p. Read p \<in> set evs \<longrightarrow> files s p = None \<longrightarrow> fst (forEach_deps c i ds q s) = Inl (ReadError p))"
proof (induction ds arbitrary: q s)
  case Nil
  show ?case by simp
next
  case (Cons d ds)
  obtain r s' where v: "visit_dep c i d q s = (r, s')" by (cases "visit_dep c i d q s")
  from visit_dep_attempt[of c i d q s] v obtain evs0 where
    t0: "trace s' = trace s @ evs0"
    and a0: "\<forall>p. Read p \<in> set evs0 \<longrightarrow> files s p = None \<longrightarrow> r = Inl (ReadError p)"
    by auto
  show ?case
  proof (cases r)
    case (Inl e)
    then show ?thesis using v t0 a0 by (intro exI[of _ evs0]) simp
  next
    case (Inr q')
    have fs: "files s' = files s" using visit_dep_frame(1)[of c i d q s] v by simp
    from Cons.IH[of q' s'] obtain evs1 where
      t1: "trace (snd (forEach_deps c i ds q' s')) = trace s' @ evs1"
      and a1: "\<forall>p. Read p \<in> set evs1 \<longrightarrow> files s' p = None \<longrightarrow> fst (forEach_deps c i ds q' s') = Inl (ReadError p)"
      by blast
    have r: "forEach_deps c i (d # ds) q s = forEach_deps c i ds q' s'" using v Inr by simp
    have "\<forall>p. Read p \<in> set (evs0 @ evs1) \<longrightarrow> files s p = None
             \<longrightarrow> fst (forEach_deps c i ds q' s') = Inl (ReadError p)"
      using a0 a1 fs Inr by auto
    then show ?thesis unfolding r using t0 t1 by (intro exI[of _ "evs0 @ evs1"]) simp
  qed
qed

lemma createGraph_attempt:
  "\<exists>evs. trace (snd (createGraph c e s)) = trace s @ evs
     \<and> (\<forall>p. Read p \<in> set evs \<longrightarrow> files s p = None \<longrightarrow> fst (createGraph c e s) = Inl (ReadError p))"
proof -
  obtain r s' where a: "createAsset c e s = (r, s')" by (cases "createAsset c e s")
  have t0: "trace s' = trace s @ [Read e]" and a0: "files s e = None \<longrightarrow> r = Inl (ReadError e)"
    and fs: "files s' = files s"
    using createAsset_attempt[of c e s] createAsset_frame(1)[of c e s] a by simp_all
  show ?thesis
  proof (cases r)
    case (Inl err)
    then have "createGraph c e s = (Inl err, s')" using a by (simp add: createGraph_unfold)
    then show ?thesis using t0 a0 Inl by (intro exI[of _ "[Read e]"]) simp
  next
    case (Inr m)
    then have r: "createGraph c e s = forEach_deps c 0 (deps m) [m] s'"
      using a by (simp add: createGraph_unfold)
    from forEach_deps_attempt[of c 0 "deps m" "[m]" s'] obtain evs1 where
      t1: "trace (snd (forEach_deps c 0 (deps m) [m] s')) = trace s' @ evs1"
      and a1: "\<forall>p. Read p \<in> set evs1 \<longrightarrow> files s' p = None \<longrightarrow> fst (forEach_deps c 0 (deps m) [m] s') = Inl (ReadError p)"
      by blast
    have "\<forall>p. Read p \<in> set (Read e # evs1) \<longrightarrow> files s p = None
             \<longrightarrow> fst (forEach_deps c 0 (deps m) [m] s') = Inl (ReadError p)"
      using a0 a1 fs Inr by auto
    then show ?thesis unfolding r using t0 t1 by (intro exI[of _ "Read e # evs1"]) simp
  qed
qed

lemma attempted_read_of_missing_file:
  assumes "trace (snd (build c opts s)) = trace s @ evs" "Read p \<in> set evs" "files s p = None"
  shows "fst (build c opts s) = Inl (ReadError p)
       \<and> files (snd (build c opts s)) = files s
       \<and> writes (trace (snd (build c opts s))) = writes (trace s)"
proof -
  have ne: "entry opts \<noteq> None \<and> entry opts \<noteq> Some []"
  proof (rule ccontr)
    assume "\<not> ?thesis"
    then have "build c opts s = (Inl ConfigError, s)" by (auto simp: build_def)
    with assms(1,2) show False by simp
  qed
  then obtain e where e: "entry opts = Some e" "e \<noteq> []" by auto
  define s0 where "s0 = s\<lparr>trace := trace s @ [Read ''./bundle.ejs'']\<rparr>"
  show ?thesis
  proof (cases "files s ''./bundle.ejs''")
    case None
    then have b: "build c opts s = (Inl (ReadError ''./bundle.ejs''), s0)"
      using e by (simp add: build_def readFileSync_def s0_def Let_def)
    with assms(1) have "evs = [Read ''./bundle.ejs'']" by (simp add: s0_def)
    with assms(2) have "p = ''./bundle.ejs''" by simp
    then show ?thesis using b by (simp add: s0_def writes_append)
  next
    case (Some template)
    then have rd: "readFileSync ''./bundle.ejs'' s = (Inr template, s0)"
      by (simp add: readFileSync_def s0_def)
    have pt: "p \<noteq> ''./bundle.ejs''" using Some assms(3) by auto
    obtain r s2 where cg: "createGraph c e s0 = (r, s2)" by (cases "createGraph c e s0")
    from createGraph_attempt[of c e s0] cg obtain evs1 where
      t1: "trace s2 = trace s0 @ evs1"
      and a1: "\<forall>p. Read p \<in> set evs1 \<longrightarrow> files s0 p = None \<longrightarrow> r = Inl (ReadError p)"
      by auto
    have fr: "files s2 = files s" "writes (trace s2) = writes (trace s)"
      using createGraph_frame[of c e s0] cg by (simp_all add: s0_def writes_append)
    have "\<exists>w. trace (snd (build c opts s)) = trace s2 @ w \<and> (\<forall>x. Read x \<notin> set w)"
      using e rd cg
      by (auto simp: build_def writeFileSync_def Let_def split: sum.splits option.splits)
    then obtain w where w: "trace (snd (build c opts s)) = trace s2 @ w" "\<forall>x. Read x \<notin> set w"
      by blast
    have "evs = Read ''./bundle.ejs'' # evs1 @ w"
      using assms(1) w(1) t1 by (simp add: s0_def)
    with assms(2) pt w(2) have "Read p \<in> set evs1" by auto
    with a1 assms(3) have r: "r = Inl (ReadError p)" by (simp add: s0_def)
    then have "build c opts s = (Inl (ReadError p), s2)"
      using e rd cg by (simp add: build_def)
    then show ?thesis using fr by simp
  qed
qed

lemma failed_build_writes_nothing:
  assumes "fst (build c opts s) = Inl err"
  shows "files (snd (build c opts s)) = files s"
proof (cases "entry opts = None \<or> entry opts = Some []")
  case True
  then show ?thesis by (auto simp: build_def)
next
  case False
  then obtain e where e: "entry opts = Some e" "e \<noteq> []" by auto
  define s0 where "s0 = s\<lparr>trace := trace s @ [Read ''./bundle.ejs'']\<rparr>"
  show ?thesis
  proof (cases "files s ''./bundle.ejs''")
    case None
    then show ?thesis using e by (simp add: build_def readFileSync_def Let_def)
  next
    case (Some template)
    then have rd: "readFileSync ''./bundle.ejs'' s = (Inr template, s0)"
      by (simp add: readFileSync_def s0_def)
    obtain r s2 where cg: "createGraph c e s0 = (r, s2)" by (cases "createGraph c e s0")
    have fr: "files s2 = files s"
      using createGraph_frame[of c e s0] cg by (simp add: s0_def)
    show ?thesis
      using assms e rd cg fr
      by (auto simp: build_def writeFileSync_def Let_def split: sum.splits option.splits if_splits)
  qed
qed

subsection \<open>Evaluation of the scenarios\<close>

lemmas ex_defs = ex_collab_def ex_state_def ex_strip_def createGraph_unfold createAsset_def
  readFileSync_def visit_dep_def obj_set_def Let_def

text \<open>
  The key \<open>__proto__\<close> is never stored: an entry that imports the module \<open>__proto__\<close>
  twice gets the two child assets and no entry in its mapping.
\<close>

lemma proto_specifier_not_stored:
  "fst (createGraph ex_collab ''./example/a.js'' (ex_state proto_files 0)) =
     Inr [\<lparr>filePath = ''./example/a.js'', code = ''a'', deps = [''__proto__'', ''__proto__''],
            id' = 0, mapping = []\<rparr>,
          \<lparr>filePath = ''/srv/example/__proto__'', code = ''p'', deps = [], id' = 1,
            mapping = []\<rparr>,
          \<lparr>filePath = ''/srv/example/__proto__'', code = ''p'', deps = [], id' = 2,
            mapping = []\<rparr>]"
  by (simp add: ex_defs proto_files_def)

text \<open>
  For the specifiers of the entry file, which are the ones the traversal visits, a missing
  file does end the build: the error is the one \<open>createAsset\<close> raised for a specifier of
  the entry (the read error of the missing file itself when every specifier before it could
  be extracted), the files are as before, and the trace has no new write call.
\<close>

lemma entry_dependency_missing_aborts:
  assumes "entry opts = Some e" "e \<noteq> []"
    and "files s ''./bundle.ejs'' = Some template"
    and "files s e = Some src" "parser_parse c src = Some ast" "transformFromAst c ast = Some cd"
    and "d \<in> set (import_sources c ast)" "d \<noteq> []"
    and "files s (path_resolve c ''./example'' d) = None"
  shows "\<exists>err. fst (build c opts s) = Inl err
           \<and> (\<exists>x \<in> set (import_sources c ast). x \<noteq> []
                 \<and> fst (createAsset c (path_resolve c ''./example'' x) s) = Inl err)
           \<and> ((\<forall>y \<in> set (takeWhile (\<lambda>y. y \<noteq> d) (import_sources c ast)).
                    y = [] \<or> extractable c (files s) (path_resolve c ''./example'' y))
                \<longrightarrow> err = ReadError (path_resolve c ''./example'' d))
           \<and> files (snd (build c opts s)) = files s
           \<and> writes (trace (snd (build c opts s))) = writes (trace s)"
proof -
  define s0 where "s0 = s\<lparr>trace := trace s @ [Read ''./bundle.ejs'']\<rparr>"
  define s1 where "s1 = s0\<lparr>trace := trace s0 @ [Read e], id_counter := id_counter s0 + 1\<rparr>"
  define a where "a = \<lparr>filePath = e, code = cd, deps = import_sources c ast,
                        id' = id_counter s0, mapping = []\<rparr>"
  have rd: "readFileSync ''./bundle.ejs'' s = (Inr template, s0)"
    using assms(3) by (simp add: readFileSync_def s0_def)
  have ca: "createAsset c e s0 = (Inr a, s1)"
    using assms(4-6) by (simp add: createAsset_def readFileSync_def s0_def s1_def a_def)
  have fs1: "files s1 = files s" by (simp add: s1_def s0_def)
  have tr1: "writes (trace s1) = writes (trace s)" by (simp add: s1_def s0_def writes_append)
  define R where "R = forEach_deps c 0 (import_sources c ast) [a] s1"
  have cg: "createGraph c e s0 = R"
    using ca by (simp add: createGraph_unfold a_def R_def)
  have miss: "files s1 (path_resolve c ''./example'' d) = None" using assms(9) fs1 by simp
  from forEach_deps_missing[OF assms(7,8) miss] obtain err where err: "fst R = Inl err"
    unfolding R_def by blast
  have b: "build c opts s = (Inl err, snd R)"
    using assms(1,2) rd cg err by (cases R) (simp add: build_def)
  from forEach_deps_Inl[OF err[unfolded R_def]] obtain x where x: "x \<in> set (import_sources c ast)"
    "x \<noteq> []" "fst (createAsset c (path_resolve c ''./example'' x) s1) = Inl err" by blast
  have x': "fst (createAsset c (path_resolve c ''./example'' x) s) = Inl err"
    using createAsset_error_files[OF fs1 x(3)] .
  have first: "err = ReadError (path_resolve c ''./example'' d)"
    if "\<forall>y \<in> set (takeWhile (\<lambda>y. y \<noteq> d) (import_sources c ast)).
          y = [] \<or> extractable c (files s) (path_resolve c ''./example'' y)"
    using forEach_deps_first_missing[OF assms(7,8) miss, of 0 "[a]"] that fs1 err
    unfolding R_def by simp
  have fr: "files (snd R) = files s" "writes (trace (snd R)) = writes (trace s)"
    using forEach_deps_frame[of c 0 "import_sources c ast" "[a]" s1] fs1 tr1
    unfolding R_def by simp_all
  show ?thesis using b x(1,2) x' first fr by auto
qed

lemma entry_dependency_missing_example:
  "fst (build ex_collab ex_options (ex_state missing_files 0))
     = Inl (ReadError ''/srv/example/missing.js'')
   \<and> files (snd (build ex_collab ex_options (ex_state missing_files 0))) = map_of missing_files
   \<and> writes (trace (snd (build ex_collab ex_options (ex_state missing_files 0)))) = []"
proof -
  let ?s = "ex_state missing_files 0"
  have h1: "entry ex_options = Some ''./example/a.js''" by (simp add: ex_options_def)
  have h2: "''./example/a.js'' \<noteq> []" by simp
  have h3: "files ?s ''./bundle.ejs'' = Some ''T''" by (simp add: ex_state_def missing_files_def)
  have h4: "files ?s ''./example/a.js'' = Some ''./b.js;./missing.js;a''"
    by (simp add: ex_state_def missing_files_def)
  have h5: "parser_parse ex_collab ''./b.js;./missing.js;a'' = Some ''./b.js;./missing.js;a''"
    by (simp add: ex_collab_def)
  have h6: "transformFromAst ex_collab ''./b.js;./missing.js;a'' = Some ''a''"
    by (simp add: ex_collab_def)
  have ds: "import_sources ex_collab ''./b.js;./missing.js;a'' = [''./b.js'', ''./missing.js'']"
    by (simp add: ex_collab_def)
  have h7: "''./missing.js'' \<in> set (import_sources ex_collab ''./b.js;./missing.js;a'')"
    by (simp add: ds)
  have h8: "''./missing.js'' \<noteq> []" by simp
  have h9: "files ?s (path_resolve ex_collab ''./example'' ''./missing.js'') = None"
    by (simp add: ex_state_def missing_files_def ex_collab_def ex_strip_def)
  have first: "\<forall>y \<in> set (takeWhile (\<lambda>y. y \<noteq> ''./missing.js'')
                    (import_sources ex_collab ''./b.js;./missing.js;a'')).
                 y = [] \<or> extractable ex_collab (files ?s) (path_resolve ex_collab ''./example'' y)"
    by (simp add: ds extractable_def ex_state_def missing_files_def ex_collab_def ex_strip_def)
  have p: "path_resolve ex_collab ''./example'' ''./missing.js'' = ''/srv/example/missing.js''"
    by (simp add: ex_collab_def ex_strip_def)
  have f: "files ?s = map_of missing_files" and t: "trace ?s = []"
    by (simp_all add: ex_state_def)
  from entry_dependency_missing_aborts[OF h1 h2 h3 h4 h5 h6 h7 h8 h9] first
  show ?thesis unfolding p f t by auto
qed

section \<open>The claims\<close>

text \<open>
  C1. On the chain (\<open>a.js\<close> imports \<open>./b.js\<close>, \<open>b.js\<close> imports \<open>./c.js\<close>, \<open>c.js\<close>
  imports nothing) the graph should have three assets with ids 0, 1, 2, the mapping of
  \<open>b\<close> pointing to id 2, the traversal going on until the queue is exhausted. The loop
  bound \<open>len\<close> is fixed at 1 before the first child is pushed, so the loop body runs for
  the entry asset only: the graph has the two assets \<open>a\<close> and \<open>b\<close>, the mapping of \<open>b\<close>
  stays empty, and \<open>c.js\<close> is never read.
\<close>

theorem chain_graph_stops_after_entry:
  "createGraph ex_collab ''./example/a.js'' (ex_state chain_files 0) =
     (Inr [\<lparr>filePath = ''./example/a.js'', code = ''a'', deps = [''./b.js''], id' = 0,
            mapping = [(''./b.js'', 1)]\<rparr>,
           \<lparr>filePath = ''/srv/example/b.js'', code = ''b'', deps = [''./c.js''], id' = 1,
            mapping = []\<rparr>],
      \<lparr>files = map_of chain_files, writable = (\<lambda>p. True), id_counter = 2,
        trace = [Read ''./example/a.js'', Read ''/srv/example/b.js'']\<rparr>)"
  by (simp add: ex_defs chain_files_def)

text \<open>
  C2. Every non-empty specifier in the \<open>deps\<close> of every asset of the returned graph should
  have an entry in that asset's \<open>mapping\<close>, naming the id of an asset of the graph. On the
  chain, the asset of \<open>b.js\<close> is in the graph with the specifier \<open>./c.js\<close> in its \<open>deps\<close>
  and no entry for it: the table below gives, for each asset of the graph and each of its
  specifiers, what the mapping holds.
\<close>

theorem chain_mapping_lookups:
  "map (\<lambda>a. map (\<lambda>d. (d, map_of (mapping a) d)) (deps a))
     (case fst (createGraph ex_collab ''./example/a.js'' (ex_state chain_files 0)) of
        Inl err \<Rightarrow> [] | Inr g \<Rightarrow> g)
   = [[(''./b.js'', Some 1)], [(''./c.js'', None)]]"
  by (simp add: ex_defs chain_files_def)

text \<open>
  C3. The ids of the assets of the graph are 0, 1, ..., N - 1 in the order of the graph,
  N being the number of assets, for the build of a freshly loaded program (the counter at
  0, as \<open>let id = 0\<close> leaves it for the one call of \<open>build\<close> the module makes).
\<close>

theorem graph_ids_contiguous:
  assumes "id_counter s = 0" "fst (createGraph c e s) = Inr g"
  shows "map id' g = [0 ..< length g]"
proof -
  define s1 where "s1 = snd (createGraph c e s)"
  have "createGraph c e s = (Inr g, s1)" using assms(2) s1_def by (metis prod.collapse)
  from createGraph_Inr[OF this] obtain r ch where g: "g = r # ch" and r: "id' r = id_counter s"
    and ch: "map id' ch = [Suc (id_counter s) ..< id_counter s1]"
    and n: "id_counter s1 = Suc (id_counter s) + length ch"
    by (metis (no_types, lifting) asset.select_convs(4) length_map)
  have "map id' g = 0 # [Suc 0 ..< Suc (length ch)]" using g r ch n assms(1) by simp
  also have "\<dots> = [0 ..< Suc (length ch)]" by (rule upt_conv_Cons[symmetric]) simp
  also have "\<dots> = [0 ..< length g]" using g by simp
  finally show ?thesis .
qed

theorem graph_ids_contiguous_witness:
  "id_counter (ex_state gap_files 0) = 0
   \<and> (\<exists>g. fst (createGraph ex_collab ''./example/a.js'' (ex_state gap_files 0)) = Inr g
          \<and> length g = 3 \<and> map id' g = [0 ..< length g])"
proof -
  define g where "g =
     [\<lparr>filePath = ''./example/a.js'', code = ''a'', deps = [''./b.js'', [], ''./b.js''], id' = 0,
        mapping = [(''./b.js'', 2)]\<rparr>,
      \<lparr>filePath = ''/srv/example/b.js'', code = ''b'', deps = [], id' = 1, mapping = []\<rparr>,
      \<lparr>filePath = ''/srv/example/b.js'', code = ''b'', deps = [], id' = 2, mapping = []\<rparr>]"
  have h1: "id_counter (ex_state gap_files 0) = 0" by (simp add: ex_state_def)
  have h2: "fst (createGraph ex_collab ''./example/a.js'' (ex_state gap_files 0)) = Inr g"
    by (simp add: ex_defs gap_files_def g_def)
  have "length g = 3" by (simp add: g_def)
  with graph_ids_contiguous[OF h1 h2] h1 h2 show ?thesis by blast
qed

text \<open>
  C4. Two runs of the program on an unchanged file set write the same bundle, each run
  starting with the id counter at 0. A run is \<open>init\<close> on a freshly loaded module, where
  \<open>let id = 0\<close> has just been evaluated. The second run finds the files as the first
  left them, the bundle included; when the first run has succeeded and the output path is
  not one of the files it read, the second run does what the first did: same result, same
  file-system calls, same ids, the same text written to the same path.
\<close>

theorem second_run_same_bundle:
  assumes "fst (init c h fs wr) = Inr ()"
    and "Read (output_file (assign_options h (readConfigFile h (dirname_files h))))
           \<notin> set (trace (snd (init c h fs wr)))"
  shows "init c h (files (snd (init c h fs wr))) wr = init c h fs wr"
proof -
  define opts where "opts = assign_options h (readConfigFile h (dirname_files h))"
  define out where "out = output_file opts"
  define s where "s = loaded fs wr"
  define s0 where "s0 = s\<lparr>trace := trace s @ [Read ''./bundle.ejs'']\<rparr>"
  have i: "init c h fs wr = build c opts s" by (simp add: init_def opts_def s_def)
  from assms(1) build_Inr[of c opts s] i obtain e template g s2 btext where
    e: "entry opts = Some e" "e \<noteq> []" and t: "files s ''./bundle.ejs'' = Some template"
    and cg: "createGraph c e s0 = (Inr g, s2)"
    and rn: "ejs_render c template (map project g) = Some btext"
    and wr: "writable s2 out"
    and fin: "snd (build c opts s) = s2\<lparr>trace := trace s2 @ [Write out], files := (files s2)(out \<mapsto> btext)\<rparr>"
    unfolding s0_def out_def by auto
  from createGraph_Inr[OF cg] obtain ast where
    dg: "deps (hd g) = import_sources c ast"
    and f2: "files s2 = files s0" and w2: "writable s2 = writable s0"
    and tr: "trace s2 = trace s0 @ Read e # map (\<lambda>d. Read (path_resolve c ''./example'' d))
                 (filter (\<lambda>d. d \<noteq> []) (import_sources c ast))"
    by auto
  have notread: "Read out \<notin> set (trace s2)"
    using assms(2) fin i unfolding opts_def[symmetric] out_def[symmetric] by simp
  have n1: "''./bundle.ejs'' \<noteq> out" using notread tr by (auto simp: s0_def)
  have n2: "e \<noteq> out" using notread tr by auto
  have n3: "\<forall>d \<in> set (deps (hd g)). d \<noteq> [] \<longrightarrow> path_resolve c ''./example'' d \<noteq> out"
    using notread tr dg by auto
  have fs2: "files s2 = fs" using f2 by (simp add: s0_def s_def loaded_def)
  have files1: "files (snd (init c h fs wr)) = fs(out \<mapsto> btext)"
    using i fin fs2 by simp
  have start: "loaded (fs(out \<mapsto> btext)) wr = put_file out btext s"
    by (simp add: loaded_def put_file_def s_def)
  have s0': "(put_file out btext s)\<lparr>trace := trace (put_file out btext s) @ [Read ''./bundle.ejs'']\<rparr>
               = put_file out btext s0"
    by (simp add: put_file_def s0_def)
  have rd: "readFileSync ''./bundle.ejs'' (put_file out btext s) = (Inr template, put_file out btext s0)"
    using t n1 s0' by (simp add: readFileSync_def put_file_def)
  have rd1: "readFileSync ''./bundle.ejs'' s = (Inr template, s0)"
    using t by (simp add: readFileSync_def s0_def)
  have cg': "createGraph c e (put_file out btext s0) = (Inr g, put_file out btext s2)"
    by (rule createGraph_put_file[OF cg n2 n3])
  have w: "writeFileSync out btext (put_file out btext s2) = writeFileSync out btext s2"
    using wr by (simp add: writeFileSync_def put_file_def)
  have "build c opts (put_file out btext s) = writeFileSync out btext (put_file out btext s2)"
    using e rd cg' rn by (simp add: build_def out_def output_file_def)
  moreover have "build c opts s = writeFileSync out btext s2"
    using e rd1 cg rn by (simp add: build_def out_def output_file_def)
  ultimately have "build c opts (put_file out btext s) = build c opts s" using w by simp
  then show ?thesis
    using files1 start i by (simp add: init_def opts_def[symmetric])
qed

theorem second_run_same_bundle_witness:
  "fst (init ex_collab ex_host (map_of chain_files) (\<lambda>p. True)) = Inr ()
   \<and> files (snd (init ex_collab ex_host (map_of chain_files) (\<lambda>p. True))) ''/srv/dist/bundle.js''
       = Some ''T:./example/a.js:a:./b.js=#,|#:/srv/example/b.js:b:|''
   \<and> init ex_collab ex_host (files (snd (init ex_collab ex_host (map_of chain_files) (\<lambda>p. True)))) (\<lambda>p. True)
       = init ex_collab ex_host (map_of chain_files) (\<lambda>p. True)"
proof -
  note defs = ex_defs chain_files_def build_def init_def loaded_def ex_host_def assign_options_def
    configFilePaths_def writeFileSync_def project_def ex_show_def output_file_def
  have h1: "fst (init ex_collab ex_host (map_of chain_files) (\<lambda>p. True)) = Inr ()"
    by (simp add: defs)
  have h2: "Read (output_file (assign_options ex_host (readConfigFile ex_host (dirname_files ex_host))))
              \<notin> set (trace (snd (init ex_collab ex_host (map_of chain_files) (\<lambda>p. True))))"
    by (simp add: defs)
  have h3: "files (snd (init ex_collab ex_host (map_of chain_files) (\<lambda>p. True))) ''/srv/dist/bundle.js''
       = Some ''T:./example/a.js:a:./b.js=#,|#:/srv/example/b.js:b:|''"
    by (simp add: defs)
  from second_run_same_bundle[OF h1 h2] h1 h3 show ?thesis by blast
qed

text \<open>
  C5. The first asset of the graph of a successful build has id 0 and is the asset
  extracted from the entry file: its path is the entry path, its specifiers and its code
  are those of the text of that file. As for C3, the build is that of a freshly loaded
  program.
\<close>

theorem root_is_entry:
  assumes "id_counter s = 0" "fst (createGraph c e s) = Inr g"
  shows "g \<noteq> [] \<and> id' (hd g) = 0 \<and> filePath (hd g) = e
       \<and> (\<exists>src ast. files s e = Some src \<and> parser_parse c src = Some ast
             \<and> deps (hd g) = import_sources c ast
             \<and> transformFromAst c ast = Some (code (hd g)))"
proof -
  define s1 where "s1 = snd (createGraph c e s)"
  have "createGraph c e s = (Inr g, s1)" using assms(2) s1_def by (metis prod.collapse)
  from createGraph_Inr[OF this] assms(1) show ?thesis by auto
qed

theorem root_is_entry_witness:
  "id_counter (ex_state chain_files 0) = 0
   \<and> (\<exists>g. fst (createGraph ex_collab ''./example/a.js'' (ex_state chain_files 0)) = Inr g
          \<and> g \<noteq> [] \<and> id' (hd g) = 0 \<and> filePath (hd g) = ''./example/a.js'')"
proof -
  define g where "g =
     [\<lparr>filePath = ''./example/a.js'', code = ''a'', deps = [''./b.js''], id' = 0,
        mapping = [(''./b.js'', 1)]\<rparr>,
      \<lparr>filePath = ''/srv/example/b.js'', code = ''b'', deps = [''./c.js''], id' = 1, mapping = []\<rparr>]"
  have h1: "id_counter (ex_state chain_files 0) = 0" by (simp add: ex_state_def)
  have h2: "fst (createGraph ex_collab ''./example/a.js'' (ex_state chain_files 0)) = Inr g"
    by (simp add: ex_defs chain_files_def g_def)
  from root_is_entry[OF h1 h2] h1 h2 show ?thesis by blast
qed

text \<open>
  C6. Every non-empty specifier the traversal meets is resolved by
  \<open>path.resolve('./example', specifier)\<close>: one fixed base, in which the path of the
  importing file has no part. The paths of the assets after the first are these resolved
  paths, in the order of the specifiers, and they are the files read after the entry. An
  empty specifier is skipped and takes no id: the counter advances by one for the entry and
  by one for each non-empty specifier.
\<close>

theorem specifiers_resolved_against_example:
  assumes "fst (createGraph c e s) = Inr g"
  shows "map filePath (tl g) = map (path_resolve c ''./example'') (filter (\<lambda>d. d \<noteq> []) (deps (hd g)))
       \<and> trace (snd (createGraph c e s)) =
           trace s @ Read e # map (\<lambda>d. Read (path_resolve c ''./example'' d)) (filter (\<lambda>d. d \<noteq> []) (deps (hd g)))
       \<and> id_counter (snd (createGraph c e s)) = id_counter s + 1 + length (filter (\<lambda>d. d \<noteq> []) (deps (hd g)))
       \<and> length g = 1 + length (filter (\<lambda>d. d \<noteq> []) (deps (hd g)))"
proof -
  define s1 where "s1 = snd (createGraph c e s)"
  have "createGraph c e s = (Inr g, s1)" using assms s1_def by (metis prod.collapse)
  from createGraph_Inr[OF this] obtain src ast cd children where
    g: "g = \<lparr>filePath = e, code = cd, deps = import_sources c ast, id' = id_counter s,
                 mapping = foldl (\<lambda>m (d, n). obj_set d n m) []
                     (zip (filter (\<lambda>d. d \<noteq> []) (import_sources c ast)) [Suc (id_counter s) ..< id_counter s1])\<rparr>
               # children"
    and fp: "map filePath children = map (path_resolve c ''./example'') (filter (\<lambda>d. d \<noteq> []) (import_sources c ast))"
    and n: "id_counter s1 = Suc (id_counter s) + length (filter (\<lambda>d. d \<noteq> []) (import_sources c ast))"
    and tr: "trace s1 = trace s @ Read e # map (\<lambda>d. Read (path_resolve c ''./example'' d)) (filter (\<lambda>d. d \<noteq> []) (import_sources c ast))"
    by blast
  have "length children = length (filter (\<lambda>d. d \<noteq> []) (import_sources c ast))"
    using fp by (metis length_map)
  then show ?thesis using g fp n tr unfolding s1_def[symmetric] by simp
qed

theorem specifiers_resolved_against_example_witness:
  "fst (createGraph ex_collab ''./example/a.js'' (ex_state gap_files 0)) =
     Inr [\<lparr>filePath = ''./example/a.js'', code = ''a'', deps = [''./b.js'', [], ''./b.js''], id' = 0,
            mapping = [(''./b.js'', 2)]\<rparr>,
          \<lparr>filePath = ''/srv/example/b.js'', code = ''b'', deps = [], id' = 1, mapping = []\<rparr>,
          \<lparr>filePath = ''/srv/example/b.js'', code = ''b'', deps = [], id' = 2, mapping = []\<rparr>]
   \<and> trace (snd (createGraph ex_collab ''./example/a.js'' (ex_state gap_files 0))) =
       [Read ''./example/a.js'', Read ''/srv/example/b.js'', Read ''/srv/example/b.js'']
   \<and> id_counter (snd (createGraph ex_collab ''./example/a.js'' (ex_state gap_files 0))) = 3"
proof -
  define g where "g =
     [\<lparr>filePath = ''./example/a.js'', code = ''a'', deps = [''./b.js'', [], ''./b.js''], id' = 0,
        mapping = [(''./b.js'', 2)]\<rparr>,
      \<lparr>filePath = ''/srv/example/b.js'', code = ''b'', deps = [], id' = 1, mapping = []\<rparr>,
      \<lparr>filePath = ''/srv/example/b.js'', code = ''b'', deps = [], id' = 2, mapping = []\<rparr>]"
  have h: "fst (createGraph ex_collab ''./example/a.js'' (ex_state gap_files 0)) = Inr g"
    by (simp add: ex_defs gap_files_def g_def)
  have p: "path_resolve ex_collab ''./example'' ''./b.js'' = ''/srv/example/b.js''"
    by (simp add: ex_collab_def ex_strip_def)
  have t: "trace (ex_state gap_files 0) = []" and k: "id_counter (ex_state gap_files 0) = 0"
    by (simp_all add: ex_state_def)
  from specifiers_resolved_against_example[OF h] h show ?thesis
    by (simp add: g_def p t k)
qed

text \<open>
  C7. A build with a missing or empty entry path fails with the configuration error
  before anything else happens: the state is returned as it was, so no file has been read
  or written and the trace of file-system calls has not grown.
\<close>

theorem missing_entry_is_config_error:
  assumes "entry opts = None \<or> entry opts = Some []"
  shows "build c opts s = (Inl ConfigError, s)"
  using assms by (auto simp: build_def)

theorem missing_entry_is_config_error_witness:
  "build ex_collab (ex_options\<lparr>entry := Some []\<rparr>) (ex_state chain_files 0)
     = (Inl ConfigError, ex_state chain_files 0)
   \<and> build ex_collab (ex_options\<lparr>entry := None\<rparr>) (ex_state chain_files 0)
     = (Inl ConfigError, ex_state chain_files 0)"
proof -
  have h1: "entry (ex_options\<lparr>entry := Some []\<rparr>) = None \<or> entry (ex_options\<lparr>entry := Some []\<rparr>) = Some []"
    by simp
  have h2: "entry (ex_options\<lparr>entry := None\<rparr>) = None \<or> entry (ex_options\<lparr>entry := None\<rparr>) = Some []"
    by simp
  from missing_entry_is_config_error[OF h1] missing_entry_is_config_error[OF h2]
  show ?thesis by blast
qed

text \<open>
  C8. Whenever an import specifier names a file that does not exist, the build should
  fail with the read error and write nothing. Below, \<open>a.js\<close> imports \<open>./b.js\<close> and
  \<open>b.js\<close> imports \<open>./missing.js\<close>, which does not exist: the specifiers of \<open>b.js\<close> are
  never visited (see C1), so no read of the missing file is attempted, the build
  succeeds, and a bundle holding \<open>a\<close> and \<open>b\<close> is written.
\<close>

theorem missing_import_below_entry_build_succeeds:
  "(fst (build ex_collab ex_options (ex_state missing_below_files 0)),
    trace (snd (build ex_collab ex_options (ex_state missing_below_files 0))),
    files (snd (build ex_collab ex_options (ex_state missing_below_files 0))) ''/srv/dist/bundle.js'',
    files (ex_state missing_below_files 0) (path_resolve ex_collab ''./example'' ''./missing.js''))
   = (Inr (),
      [Read ''./bundle.ejs'', Read ''./example/a.js'', Read ''/srv/example/b.js'',
       Write ''/srv/dist/bundle.js''],
      Some ''T:./example/a.js:a:./b.js=#,|#:/srv/example/b.js:b:|'',
      None)"
  by (simp add: ex_defs missing_below_files_def build_def ex_options_def writeFileSync_def
        project_def ex_show_def)

text \<open>
  C9. An entry file that imports \<open>./b.js\<close> twice gives a graph of three assets: the
  entry, and two assets of the file \<open>./b.js\<close> resolves to, with ids 1 and 2, each from a
  read of its own. No path is looked up before \<open>createAsset\<close> is called. (The mapping of
  the entry ends with the one key \<open>./b.js\<close> at the id 2 of the second.)
\<close>

theorem repeated_import_two_assets:
  assumes "id_counter s = 0"
    and "files s e = Some src" "parser_parse c src = Some ast"
    and "import_sources c ast = [''./b.js'', ''./b.js'']"
    and "transformFromAst c ast = Some cd"
    and "files s (path_resolve c ''./example'' ''./b.js'') = Some bsrc"
    and "parser_parse c bsrc = Some bast" "transformFromAst c bast = Some bcd"
  shows "fst (createGraph c e s) =
           Inr [\<lparr>filePath = e, code = cd, deps = [''./b.js'', ''./b.js''], id' = 0,
                  mapping = [(''./b.js'', 2)]\<rparr>,
                \<lparr>filePath = path_resolve c ''./example'' ''./b.js'', code = bcd,
                  deps = import_sources c bast, id' = 1, mapping = []\<rparr>,
                \<lparr>filePath = path_resolve c ''./example'' ''./b.js'', code = bcd,
                  deps = import_sources c bast, id' = 2, mapping = []\<rparr>]
       \<and> trace (snd (createGraph c e s)) =
           trace s @ [Read e, Read (path_resolve c ''./example'' ''./b.js''),
                      Read (path_resolve c ''./example'' ''./b.js'')]"
  using assms
  by (simp add: createGraph_unfold createAsset_def readFileSync_def visit_dep_def obj_set_def Let_def)

theorem repeated_import_two_assets_witness:
  "fst (createGraph ex_collab ''./example/a.js'' (ex_state repeated_files 0)) =
     Inr [\<lparr>filePath = ''./example/a.js'', code = ''a'', deps = [''./b.js'', ''./b.js''], id' = 0,
            mapping = [(''./b.js'', 2)]\<rparr>,
          \<lparr>filePath = ''/srv/example/b.js'', code = ''b'', deps = [], id' = 1, mapping = []\<rparr>,
          \<lparr>filePath = ''/srv/example/b.js'', code = ''b'', deps = [], id' = 2, mapping = []\<rparr>]
   \<and> trace (snd (createGraph ex_collab ''./example/a.js'' (ex_state repeated_files 0))) =
       [Read ''./example/a.js'', Read ''/srv/example/b.js'', Read ''/srv/example/b.js'']"
proof -
  let ?s = "ex_state repeated_files 0"
  have h1: "id_counter ?s = 0" by (simp add: ex_state_def)
  have h2: "files ?s ''./example/a.js'' = Some ''./b.js;./b.js;a''"
    by (simp add: ex_state_def repeated_files_def)
  have h3: "parser_parse ex_collab ''./b.js;./b.js;a'' = Some ''./b.js;./b.js;a''"
    by (simp add: ex_collab_def)
  have h4: "import_sources ex_collab ''./b.js;./b.js;a'' = [''./b.js'', ''./b.js'']"
    by (simp add: ex_collab_def)
  have h5: "transformFromAst ex_collab ''./b.js;./b.js;a'' = Some ''a''"
    by (simp add: ex_collab_def)
  have p: "path_resolve ex_collab ''./example'' ''./b.js'' = ''/srv/example/b.js''"
    by (simp add: ex_collab_def ex_strip_def)
  have h6: "files ?s (path_resolve ex_collab ''./example'' ''./b.js'') = Some ''b''"
    by (simp add: p ex_state_def repeated_files_def)
  have h7: "parser_parse ex_collab ''b'' = Some ''b''" by (simp add: ex_collab_def)
  have h8: "transformFromAst ex_collab ''b'' = Some ''b''" by (simp add: ex_collab_def)
  have d: "import_sources ex_collab ''b'' = []" by (simp add: ex_collab_def)
  have t: "trace ?s = []" by (simp add: ex_state_def)
  from repeated_import_two_assets[OF h1 h2 h3 h4 h5 h6 h7 h8]
  show ?thesis unfolding p d t by simp
qed

text \<open>
  C10. An asset whose \<open>deps\<close> hold the same non-empty specifier more than once should get
  one child asset for each occurrence, its mapping keeping the id of the last. Below,
  \<open>a.js\<close> imports \<open>./b.js\<close> and \<open>b.js\<close> imports \<open>./c.js\<close> twice: the asset of \<open>b.js\<close> is in
  the graph with both occurrences in its \<open>deps\<close>, and no child is created for either,
  since the loop never reaches index 1 (see C1); the counter stops at 2.
\<close>

theorem repeated_import_below_entry_no_children:
  "(case createGraph ex_collab ''./example/a.js'' (ex_state twice_below_files 0) of
      (Inl err, s1) \<Rightarrow> ([], id_counter s1, trace s1)
    | (Inr g, s1) \<Rightarrow> (map (\<lambda>a. (id' a, filePath a, deps a, mapping a)) g, id_counter s1, trace s1))
   = ([(0, ''./example/a.js'', [''./b.js''], [(''./b.js'', 1)]),
       (1, ''/srv/example/b.js'', [''./c.js'', ''./c.js''], [])],
      2,
      [Read ''./example/a.js'', Read ''/srv/example/b.js''])"
  by (simp add: ex_defs twice_below_files_def)

end
